theory Spec2Isabelle
  imports Main "HOL-Library.Sublist"
begin

section \<open>The Quotesn service worker (\<open>src/sw.js\<close>)\<close>

text \<open>
  A shallow embedding of the service worker's cache-strategy engine: the fetch router,
  the four strategies, the trimmer and the activation sweep.

  The platform primitives the worker calls (the Cache Storage API and \<open>fetch\<close>) are
  modelled as data: the cache storage is an association list of named caches in creation
  order, a cache is an association list of entries in insertion order, and the network
  is a function from a request to the outcome of fetching it. An asynchronous function
  is modelled by the value its promise settles to, together with the storage once every
  task it started (awaited or detached) has completed; one invocation runs at a time.
\<close>

subsection \<open>Requests, responses and JavaScript values\<close>

record url =
  protocol :: string
  origin :: string
  pathname :: string
  search :: string

record request =
  "method" :: string
  url :: url
  mode :: string
  destination :: string
  headers :: "(string \<times> string) list"

datatype response_type = Basic | Cors | Default | Error | Opaque | Opaqueredirect

text \<open>Header names are kept in lower case, as \<open>Headers\<close> normalises them.\<close>

record response =
  status :: nat
  rtype :: response_type
  rheaders :: "(string \<times> string) list"
  body :: string

text \<open>\<open>response.ok\<close>: the status is in the range 200 to 299.\<close>

definition ok :: "response \<Rightarrow> bool" where
  "ok r = (200 \<le> status r \<and> status r \<le> 299)"

text \<open>
  The values the strategies handle: \<open>undefined\<close> (a missed cache lookup), \<open>null\<close>,
  a Response object, and a promise, represented by what it settles to.
\<close>

datatype jsval =
    Undefined
  | Null
  | Resp response
  | PromiseFulfilled jsval
  | PromiseRejected

text \<open>What the promise of an asynchronous function call settles to.\<close>

datatype settled = Fulfilled jsval | Rejected

text \<open>JavaScript truthiness: every object, a promise included, is truthy.\<close>

fun truthy :: "jsval \<Rightarrow> bool" where
  "truthy Undefined = False"
| "truthy Null = False"
| "truthy (Resp r) = True"
| "truthy (PromiseFulfilled v) = True"
| "truthy PromiseRejected = True"

text \<open>The operator \<open>a || b\<close>.\<close>

definition js_or :: "jsval \<Rightarrow> jsval \<Rightarrow> jsval" where
  "js_or a b = (if truthy a then a else b)"

text \<open>
  \<open>return v\<close> in an asynchronous function: the function's promise adopts the state of a
  returned promise, and is fulfilled with any other value.
\<close>

fun async_return :: "jsval \<Rightarrow> settled" where
  "async_return (PromiseFulfilled v) = async_return v"
| "async_return PromiseRejected = Rejected"
| "async_return v = Fulfilled v"

definition of_option :: "response option \<Rightarrow> jsval" where
  "of_option m = (case m of None \<Rightarrow> Undefined | Some r \<Rightarrow> Resp r)"

subsection \<open>The Cache Storage API\<close>

text \<open>
  A cache keeps its entries in insertion order, keyed by the request's URL (every request
  the router hands to a strategy is a GET). \<open>caches\<close> keeps the named caches in creation
  order.
\<close>

type_synonym cache = "(url \<times> response) list"
type_synonym cache_storage = "(string \<times> cache) list"

text \<open>\<open>caches.keys()\<close>.\<close>

definition caches_keys :: "cache_storage \<Rightarrow> string list" where
  "caches_keys cs = map fst cs"

text \<open>\<open>caches.open(name)\<close>: creates the cache when there is none of that name.\<close>

definition caches_open :: "string \<Rightarrow> cache_storage \<Rightarrow> cache_storage" where
  "caches_open name cs = (if name \<in> set (caches_keys cs) then cs else cs @ [(name, [])])"

text \<open>\<open>caches.delete(name)\<close>.\<close>

definition caches_delete :: "string \<Rightarrow> cache_storage \<Rightarrow> cache_storage" where
  "caches_delete name cs = filter (\<lambda>(n, c). n \<noteq> name) cs"

text \<open>The entries of the cache called \<open>name\<close> (none when there is no such cache).\<close>

definition entries :: "cache_storage \<Rightarrow> string \<Rightarrow> cache" where
  "entries cs name = (case map_of cs name of None \<Rightarrow> [] | Some c \<Rightarrow> c)"

text \<open>Applies \<open>f\<close> to the cache called \<open>name\<close>.\<close>

definition update_cache :: "string \<Rightarrow> (cache \<Rightarrow> cache) \<Rightarrow> cache_storage \<Rightarrow> cache_storage" where
  "update_cache name f cs = map (\<lambda>(n, c). if n = name then (n, f c) else (n, c)) cs"

text \<open>\<open>cache.match(request)\<close>: the response stored for the request, if any.\<close>

definition cache_match :: "string \<Rightarrow> request \<Rightarrow> cache_storage \<Rightarrow> response option" where
  "cache_match name req cs = map_of (entries cs name) (url req)"

text \<open>\<open>caches.match(request)\<close>: the first hit over all caches, in creation order.\<close>

fun caches_match :: "request \<Rightarrow> cache_storage \<Rightarrow> response option" where
  "caches_match req [] = None"
| "caches_match req ((n, c) # cs) =
     (case map_of c (url req) of Some r \<Rightarrow> Some r | None \<Rightarrow> caches_match req cs)"

text \<open>\<open>cache.put(request, response)\<close>: replaces the entry of the request, appending the new one.\<close>

definition cache_put :: "string \<Rightarrow> request \<Rightarrow> response \<Rightarrow> cache_storage \<Rightarrow> cache_storage" where
  "cache_put name req r cs =
     update_cache name (\<lambda>c. filter (\<lambda>(k, v). k \<noteq> url req) c @ [(url req, r)]) cs"

text \<open>\<open>cache.keys()\<close>: the keys in insertion order.\<close>

definition cache_keys :: "string \<Rightarrow> cache_storage \<Rightarrow> url list" where
  "cache_keys name cs = map fst (entries cs name)"

text \<open>\<open>cache.delete(key)\<close>: removes the entries of that key; no effect when there is none.\<close>

definition cache_delete :: "string \<Rightarrow> url \<Rightarrow> cache_storage \<Rightarrow> cache_storage" where
  "cache_delete name k cs = update_cache name (filter (\<lambda>(k', v). k' \<noteq> k)) cs"

subsection \<open>Configuration\<close>

definition VERSION :: string where
  "VERSION = ''v1.0.0-2025-09-10''"

text \<open>
  The store names are template strings over \<open>VERSION\<close>; the version is a parameter here so
  that two generations can be told apart.
\<close>

definition RUNTIME_CACHE :: "string \<Rightarrow> string" where
  "RUNTIME_CACHE ver = ''quotesn-runtime-'' @ ver"

definition PRECACHE :: "string \<Rightarrow> string" where
  "PRECACHE ver = ''quotesn-precache-'' @ ver"

definition IMAGE_CACHE_MAX_ITEMS :: nat where
  "IMAGE_CACHE_MAX_ITEMS = 60"

subsection \<open>\<open>trimCache\<close>\<close>

text \<open>
  \<^verbatim>\<open>for (let i = 0; i < deletions; i++) await cache.delete(keys[i]);\<close>
  The loop only runs when \<open>deletions = keys.length - maxItems\<close> is positive, so \<open>keys[i]\<close>
  is always in range.
\<close>

function trim_loop :: "string \<Rightarrow> url list \<Rightarrow> nat \<Rightarrow> nat \<Rightarrow> cache_storage \<Rightarrow> cache_storage" where
  "trim_loop cacheName keys deletions i cs =
     (if i < deletions
      then trim_loop cacheName keys deletions (Suc i) (cache_delete cacheName (keys ! i) cs)
      else cs)"
  by pat_completeness auto
termination
  by (relation "measure (\<lambda>(cacheName, keys, deletions, i, cs). deletions - i)") auto

declare trim_loop.simps [simp del]

definition trimCache :: "string \<Rightarrow> nat \<Rightarrow> cache_storage \<Rightarrow> cache_storage" where
  "trimCache cacheName maxItems cs =
     (let cs1 = caches_open cacheName cs;
          keys = cache_keys cacheName cs1
      in if length keys \<le> maxItems then cs1
         else let deletions = length keys - maxItems
              in trim_loop cacheName keys deletions 0 cs1)"

subsection \<open>The activation sweep\<close>

text \<open>\<open>name.startsWith(prefix)\<close>.\<close>

definition startsWith :: "string \<Rightarrow> string \<Rightarrow> bool" where
  "startsWith name p = (take (length p) name = p)"

text \<open>The filter of the \<open>activate\<close> listener: the names it deletes.\<close>

definition stale :: "string \<Rightarrow> string \<Rightarrow> bool" where
  "stale ver name =
     (startsWith name ''quotesn-'' \<and> name \<noteq> PRECACHE ver \<and> name \<noteq> RUNTIME_CACHE ver)"

text \<open>
  \<^verbatim>\<open>Promise.all(names.filter(...).map(name => caches.delete(name)))\<close>:
  every selected store is deleted.
\<close>

definition activate :: "string \<Rightarrow> cache_storage \<Rightarrow> cache_storage" where
  "activate ver cs =
     (let names = caches_keys cs
      in fold caches_delete (filter (stale ver) names) cs)"

subsection \<open>The offline document and the placeholder image\<close>

text \<open>
  \<open>OFFLINE_HTML\<close>, as the bytes of its UTF-8 encoding (the body of a Response built from a
  string); the template literal starts with a line break.
\<close>

definition OFFLINE_HTML :: string where
  \<open>OFFLINE_HTML =
     ''\<newline>'' @
     ''<!doctype html>\<newline>'' @
     ''<html lang="en"><meta charset="utf-8">\<newline>'' @
     ''<meta name="viewport" content="width=device-width,initial-scale=1">\<newline>'' @
     ''<title>Offline | Quotesn</title>\<newline>'' @
     ''<style>\<newline>'' @
     ''  body{margin:0;font-family:system-ui,-apple-system,"Segoe UI",Roboto,Arial;\<newline>'' @
     ''       color:#0b0d12;background:#ffffff;min-height:100vh;display:grid;place-items:center}\<newline>'' @
     ''  .card{max-width:540px;margin:2rem;padding:1.25rem 1.25rem 1rem;border:1px solid #e7eaf2;\<newline>'' @
     ''        border-radius:16px;background:#fff;box-shadow:0 18px 44px rgba(10,22,70,.10),inset 0 1px 0 rgba(255,255,255,.65)}\<newline>'' @
     ''  h1{margin:.2rem 0 0;font-size:1.4rem}\<newline>'' @
     ''  p{color:#4a556f;margin:.6rem 0 0;line-height:1.6}\<newline>'' @
     ''  .row{display:flex;gap:.6rem;flex-wrap:wrap;margin-top:1rem}\<newline>'' @
     ''  .btn{display:inline-flex;align-items:center;justify-content:center;height:44px;padding:0 14px;border-radius:10px;\<newline>'' @
     ''       font-weight:700;line-height:1;text-decoration:none}\<newline>'' @
     ''  .primary{background:linear-gradient(135deg,#FFD24A 0%,#FFB000 100%);color:#1a1206;box-shadow:0 8px 18px rgba(255,178,0,.18)}\<newline>'' @
     ''  .outline{border:1px solid #d8def8;background:linear-gradient(180deg,rgba(49,87,255,.10),rgba(49,87,255,.05));color:#0b0d12}\<newline>'' @
     ''</style>\<newline>'' @
     ''<div class="card">\<newline>'' @
     ''  <h1>You'' @ [CHR 0xE2, CHR 0x80, CHR 0x99] @ ''re offline</h1>\<newline>'' @
     ''  <p>It looks like your device is offline. You can still browse some cached pages. When you'' @ [CHR 0xE2, CHR 0x80, CHR 0x99] @ ''re back online, reload for the latest content.</p>\<newline>'' @
     ''  <div class="row">\<newline>'' @
     ''    <a class="btn primary" href="/">Go to Homepage</a>\<newline>'' @
     ''    <a class="btn outline" href="/quizzes/">Browse Quizzes</a>\<newline>'' @
     ''  </div>\<newline>'' @
     ''</div>\<newline>'' @
     ''</html>''\<close>

text \<open>The data URL of the 1x1 transparent PNG in \<open>cacheFirstWithLimit\<close>.\<close>

definition fallbackImg :: string where
  "fallbackImg = ''data:image/png;base64,iVBORw0KGgoAAAANSUhEUgAAAAEAAAABCAQAAAC1HAwCAAAAC0lEQVR42mP8/xcAAt8B3y8y0dQAAAAASUVORK5CYII=''"

subsection \<open>\<open>fetch\<close>\<close>

datatype fetch_outcome = NetworkError | NetResponse response

type_synonym network = "request \<Rightarrow> fetch_outcome"

text \<open>\<open>new Request(s)\<close> for a data URL \<open>s\<close>: a GET request with the default mode.\<close>

definition Request :: "string \<Rightarrow> request" where
  "Request s =
     \<lparr>method = ''GET'',
      url = \<lparr>protocol = ''data:'', origin = ''null'', pathname = drop 5 s, search = []\<rparr>,
      mode = ''cors'', destination = [], headers = []\<rparr>"

text \<open>
  The response of a base64 data URL: status 200 with the media type of the URL. The body
  is kept as the base64 text of the URL.
\<close>

definition data_url_response :: "url \<Rightarrow> response" where
  "data_url_response u =
     \<lparr>status = 200, rtype = Basic,
      rheaders = [(''content-type'', takeWhile (\<lambda>c. c \<noteq> CHR '';'') (pathname u))],
      body = drop 1 (dropWhile (\<lambda>c. c \<noteq> CHR '','') (pathname u))\<rparr>"

text \<open>
  \<open>fetch(request)\<close>: the outcome, and the requests sent to the network. A data URL is
  resolved locally; every other request goes to the network.
\<close>

definition fetch :: "network \<Rightarrow> request \<Rightarrow> fetch_outcome \<times> request list" where
  "fetch net req =
     (if protocol (url req) = ''data:'' then (NetResponse (data_url_response (url req)), [])
      else (net req, [req]))"

text \<open>The promise \<open>fetch\<close> returns, as a value.\<close>

fun promise_of :: "fetch_outcome \<Rightarrow> jsval" where
  "promise_of (NetResponse r) = PromiseFulfilled (Resp r)"
| "promise_of NetworkError = PromiseRejected"

subsection \<open>The strategies\<close>

text \<open>
  What an invocation of a strategy amounts to: the value its promise settles to, the cache
  storage once all the work it started is done, and the requests it sent to the network.
\<close>

record outcome =
  settles :: settled
  storage :: cache_storage
  fetches :: "request list"

text \<open>\<open>new Response('', { status: 504 })\<close>.\<close>

definition response_504 :: response where
  "response_504 = \<lparr>status = 504, rtype = Default, rheaders = [], body = []\<rparr>"

text \<open>
  \<open>handleHTMLNavigation\<close>: the \<open>put\<close> is not awaited; the \<open>catch\<close> branch looks the request
  up in all caches.
\<close>

definition handleHTMLNavigation :: "string \<Rightarrow> network \<Rightarrow> request \<Rightarrow> cache_storage \<Rightarrow> outcome" where
  "handleHTMLNavigation ver net request cs =
     (case fetch net request of
        (NetResponse network, sent) \<Rightarrow>
          let cs1 = caches_open (RUNTIME_CACHE ver) cs;
              cs2 = cache_put (RUNTIME_CACHE ver) request network cs1
          in \<lparr>settles = async_return (Resp network), storage = cs2, fetches = sent\<rparr>
      | (NetworkError, sent) \<Rightarrow>
          let cached = of_option (caches_match request cs)
          in if truthy cached
             then \<lparr>settles = async_return cached, storage = cs, fetches = sent\<rparr>
             else \<lparr>settles = async_return (Resp
                     \<lparr>status = 200, rtype = Default,
                      rheaders = [(''content-type'', ''text/html; charset=utf-8'')],
                      body = OFFLINE_HTML\<rparr>),
                   storage = cs, fetches = sent\<rparr>)"

text \<open>
  \<open>staleWhileRevalidate\<close>: \<open>fetchPromise\<close> is the promise of the \<open>then\<close>/\<open>catch\<close> chain, and
  the function returns \<^verbatim>\<open>cached || fetchPromise || new Response('', { status: 504 })\<close>.
\<close>

definition staleWhileRevalidate :: "network \<Rightarrow> request \<Rightarrow> string \<Rightarrow> cache_storage \<Rightarrow> outcome" where
  "staleWhileRevalidate net request cacheName cs =
     (let cs1 = caches_open cacheName cs;
          cached = of_option (cache_match cacheName request cs1);
          (fetchPromise, cs2, sent) =
            (case fetch net request of
               (NetResponse response, sent) \<Rightarrow>
                 (PromiseFulfilled (Resp response),
                  if truthy (Resp response) \<and> (ok response \<or> rtype response = Opaque)
                  then cache_put cacheName request response cs1 else cs1,
                  sent)
             | (NetworkError, sent) \<Rightarrow> (PromiseFulfilled Null, cs1, sent))
      in \<lparr>settles = async_return (js_or (js_or cached fetchPromise) (Resp response_504)),
          storage = cs2, fetches = sent\<rparr>)"

text \<open>
  \<open>cacheFirstWithLimit\<close>: the request is fetched with \<open>mode: 'no-cors'\<close>; the \<open>put\<close> is
  awaited, \<open>trimCache\<close> is started and not awaited.
\<close>

definition cacheFirstWithLimit :: "network \<Rightarrow> request \<Rightarrow> string \<Rightarrow> nat \<Rightarrow> cache_storage \<Rightarrow> outcome" where
  "cacheFirstWithLimit net request cacheName maxItems cs =
     (let cs1 = caches_open cacheName cs;
          cached = of_option (cache_match cacheName request cs1)
      in if truthy cached
         then \<lparr>settles = async_return cached, storage = cs1, fetches = []\<rparr>
         else
           (case fetch net (request\<lparr>mode := ''no-cors''\<rparr>) of
              (NetResponse response, sent) \<Rightarrow>
                if truthy (Resp response) \<and> (ok response \<or> rtype response = Opaque)
                then let cs2 = cache_put cacheName request response cs1;
                         cs3 = trimCache cacheName maxItems cs2
                     in \<lparr>settles = async_return (Resp response), storage = cs3, fetches = sent\<rparr>
                else \<lparr>settles = async_return (Resp response), storage = cs1, fetches = sent\<rparr>
            | (NetworkError, sent) \<Rightarrow>
                (case fetch net (Request fallbackImg) of
                   (fallback, sent') \<Rightarrow>
                     \<lparr>settles = async_return (promise_of fallback), storage = cs1,
                      fetches = sent @ sent'\<rparr>)))"

text \<open>\<open>networkFallingBackToCache\<close>: the cache is only opened for a usable response.\<close>

definition networkFallingBackToCache :: "network \<Rightarrow> request \<Rightarrow> string \<Rightarrow> cache_storage \<Rightarrow> outcome" where
  "networkFallingBackToCache net request cacheName cs =
     (case fetch net request of
        (NetResponse response, sent) \<Rightarrow>
          if truthy (Resp response) \<and> (ok response \<or> rtype response = Opaque)
          then let cs1 = caches_open cacheName cs;
                   cs2 = cache_put cacheName request response cs1
               in \<lparr>settles = async_return (Resp response), storage = cs2, fetches = sent\<rparr>
          else \<lparr>settles = async_return (Resp response), storage = cs, fetches = sent\<rparr>
      | (NetworkError, sent) \<Rightarrow>
          let cached = of_option (caches_match request cs)
          in \<lparr>settles = async_return (js_or cached (Resp response_504)),
              storage = cs, fetches = sent\<rparr>)"

subsection \<open>The fetch listener\<close>

text \<open>ASCII lower case, for the \<open>i\<close> flag of the regular expression.\<close>

definition to_lower :: "char \<Rightarrow> char" where
  "to_lower c =
     (case map_of (zip ''ABCDEFGHIJKLMNOPQRSTUVWXYZ'' ''abcdefghijklmnopqrstuvwxyz'') c of
        None \<Rightarrow> c | Some l \<Rightarrow> l)"

text \<open>The alternatives of \<^verbatim>\<open>(png|jpg|jpeg|webp|avif|gif)\<close>, in the order tried.\<close>

definition image_extensions :: "string list" where
  "image_extensions = [''png'', ''jpg'', ''jpeg'', ''webp'', ''avif'', ''gif'']"

text \<open>Matches a literal, ignoring case, at the start of \<open>s\<close>: what is left of \<open>s\<close>.\<close>

fun match_literal :: "string \<Rightarrow> string \<Rightarrow> string option" where
  "match_literal [] s = Some s"
| "match_literal (p # ps) [] = None"
| "match_literal (p # ps) (c # s) = (if to_lower c = p then match_literal ps s else None)"

text \<open>
  \<^verbatim>\<open>(\?.*)?$\<close>: either the input ends here, or a question mark follows and the rest of
  the input has no line terminator (\<open>.\<close> does not match one).
\<close>

definition match_tail :: "string \<Rightarrow> bool" where
  "match_tail s =
     (case s of
        [] \<Rightarrow> True
      | c # t \<Rightarrow> c = CHR ''?'' \<and> (\<forall>d \<in> set t. d \<noteq> CHR 0x0A \<and> d \<noteq> CHR 0x0D))"

text \<open>The whole pattern, tried at the start of \<open>s\<close>.\<close>

definition match_here :: "string \<Rightarrow> bool" where
  "match_here s =
     (case s of
        [] \<Rightarrow> False
      | c # t \<Rightarrow> c = CHR ''.'' \<and>
          (\<exists>e \<in> set image_extensions.
             case match_literal e t of None \<Rightarrow> False | Some t' \<Rightarrow> match_tail t'))"

text \<open>
  \<^verbatim>\<open>/\.(png|jpg|jpeg|webp|avif|gif)(\?.*)?$/i.test(s)\<close>: the pattern is tried at every
  position of \<open>s\<close>.
\<close>

fun image_regex_test :: "string \<Rightarrow> bool" where
  "image_regex_test [] = False"
| "image_regex_test (c # s) = (match_here (c # s) \<or> image_regex_test s)"

text \<open>
  \<^verbatim>\<open>(req.headers.get('accept') || '')\<close>; header names are kept in lower case.
\<close>

definition accept_header :: "request \<Rightarrow> string" where
  "accept_header req = (case map_of (headers req) ''accept'' of None \<Rightarrow> [] | Some a \<Rightarrow> a)"

datatype strategy =
    HandleHTMLNavigation
  | StaleWhileRevalidate string
  | CacheFirstWithLimit string nat
  | NetworkFallingBackToCache string

datatype routed = NotIntercepted | RespondWith strategy

text \<open>
  The decisions of the listener: which strategy \<open>event.respondWith\<close> is called with, if any.
  \<open>location_origin\<close> is \<open>self.location.origin\<close>.
\<close>

definition route :: "string \<Rightarrow> string \<Rightarrow> request \<Rightarrow> routed" where
  "route ver location_origin req =
     (if method req \<noteq> ''GET'' then NotIntercepted
      else if mode req = ''navigate'' \<or> sublist ''text/html'' (accept_header req)
        then RespondWith HandleHTMLNavigation
      else if origin (url req) = location_origin
        then RespondWith (StaleWhileRevalidate (RUNTIME_CACHE ver))
      else if destination req = ''image'' \<or> image_regex_test (pathname (url req))
        then RespondWith (CacheFirstWithLimit (RUNTIME_CACHE ver @ ''-img'') IMAGE_CACHE_MAX_ITEMS)
      else RespondWith (NetworkFallingBackToCache (RUNTIME_CACHE ver)))"

fun run_strategy :: "string \<Rightarrow> network \<Rightarrow> strategy \<Rightarrow> request \<Rightarrow> cache_storage \<Rightarrow> outcome" where
  "run_strategy ver net HandleHTMLNavigation req cs = handleHTMLNavigation ver net req cs"
| "run_strategy ver net (StaleWhileRevalidate n) req cs = staleWhileRevalidate net req n cs"
| "run_strategy ver net (CacheFirstWithLimit n m) req cs = cacheFirstWithLimit net req n m cs"
| "run_strategy ver net (NetworkFallingBackToCache n) req cs = networkFallingBackToCache net req n cs"

text \<open>
  The listener on a request: \<open>None\<close> when the request is not intercepted, else the outcome
  of the promise handed to \<open>event.respondWith\<close>.
\<close>

definition on_fetch :: "string \<Rightarrow> string \<Rightarrow> network \<Rightarrow> request \<Rightarrow> cache_storage \<Rightarrow> outcome option" where
  "on_fetch ver location_origin net req cs =
     (case route ver location_origin req of
        NotIntercepted \<Rightarrow> None
      | RespondWith s \<Rightarrow> Some (run_strategy ver net s req cs))"

text \<open>
  The spec's wording of the image test: the path ends, ignoring case, with a dot and one
  of the raster-image extensions.
\<close>

definition has_raster_extension :: "string \<Rightarrow> bool" where
  "has_raster_extension path =
     (\<exists>e \<in> set [''png'', ''jpg'', ''jpeg'', ''webp'', ''avif'', ''gif''].
        suffix (''.'' @ e) (map to_lower path))"

subsection \<open>Sample networks, requests and responses\<close>

text \<open>A network that is unreachable, and one that answers every request with \<open>r\<close>.\<close>

definition unreachable :: network where
  "unreachable req = NetworkError"

definition answering :: "response \<Rightarrow> network" where
  "answering r req = NetResponse r"

text \<open>The origin of the site, for the examples.\<close>

definition site_origin :: string where
  "site_origin = ''https://quotesn.com''"

text \<open>\<open>GET https://quotesn.com/data/quotes.json\<close>, as a script would fetch it.\<close>

definition asset_request :: request where
  "asset_request =
     \<lparr>method = ''GET'',
      url = \<lparr>protocol = ''https:'', origin = ''https://quotesn.com'',
             pathname = ''/data/quotes.json'', search = []\<rparr>,
      mode = ''cors'', destination = [], headers = [(''accept'', ''*/*'')]\<rparr>"

text \<open>A navigation to \<open>https://quotesn.com/about/\<close>.\<close>

definition page_request :: request where
  "page_request =
     \<lparr>method = ''GET'',
      url = \<lparr>protocol = ''https:'', origin = ''https://quotesn.com'',
             pathname = ''/about/'', search = []\<rparr>,
      mode = ''navigate'', destination = ''document'',
      headers = [(''accept'', ''text/html,application/xhtml+xml'')]\<rparr>"

text \<open>\<open>GET https://picsum.photos/id/10/photo.JPG?blur=2\<close>, fetched by a script.\<close>

definition photo_request :: request where
  "photo_request =
     \<lparr>method = ''GET'',
      url = \<lparr>protocol = ''https:'', origin = ''https://picsum.photos'',
             pathname = ''/id/10/photo.JPG'', search = ''?blur=2''\<rparr>,
      mode = ''cors'', destination = [], headers = [(''accept'', ''*/*'')]\<rparr>"

text \<open>\<open>GET https://api.example.com/v1/quotes\<close>, fetched by a script.\<close>

definition api_request :: request where
  "api_request =
     \<lparr>method = ''GET'',
      url = \<lparr>protocol = ''https:'', origin = ''https://api.example.com'',
             pathname = ''/v1/quotes'', search = []\<rparr>,
      mode = ''cors'', destination = [], headers = [(''accept'', ''application/json'')]\<rparr>"

text \<open>A same-origin error response, and a successful one.\<close>

definition not_found :: response where
  "not_found = \<lparr>status = 404, rtype = Basic, rheaders = [], body = ''Not Found''\<rparr>"

definition found :: response where
  "found = \<lparr>status = 200, rtype = Basic, rheaders = [], body = ''{}''\<rparr>"

section \<open>Properties\<close>

subsection \<open>The cache operations\<close>

lemma entries_update_cache:
  "entries (update_cache name f cs) n =
     (if n = name \<and> name \<in> set (caches_keys cs) then f (entries cs name) else entries cs n)"
proof (induction cs)
  case Nil
  then show ?case by (simp add: entries_def update_cache_def caches_keys_def)
next
  case (Cons p cs)
  obtain a c where p: "p = (a, c)" by (cases p)
  have step: "entries (update_cache name f (p # cs)) n =
      (if n = a then (if a = name then f c else c) else entries (update_cache name f cs) n)"
    by (simp add: entries_def update_cache_def p)
  have old: "entries (p # cs) m = (if m = a then c else entries cs m)" for m
    by (simp add: entries_def p)
  show ?case
    unfolding step old Cons.IH by (auto simp: caches_keys_def p)
qed

lemma caches_keys_update_cache [simp]: "caches_keys (update_cache name f cs) = caches_keys cs"
  by (induction cs) (auto simp: update_cache_def caches_keys_def)

lemma entries_absent: "name \<notin> set (caches_keys cs) \<Longrightarrow> entries cs name = []"
  by (induction cs) (auto simp: entries_def caches_keys_def)

lemma entries_cache_delete:
  "entries (cache_delete name k cs) n =
     (if n = name then filter (\<lambda>(k', v). k' \<noteq> k) (entries cs name) else entries cs n)"
  by (cases "name \<in> set (caches_keys cs)")
     (auto simp: cache_delete_def entries_update_cache entries_absent)

lemma entries_caches_open [simp]: "entries (caches_open name cs) n = entries cs n"
  by (induction cs) (auto simp: entries_def caches_open_def caches_keys_def)

text \<open>\<open>cache.put\<close> keeps the keys of a store distinct.\<close>

lemma cache_put_distinct:
  assumes "distinct (cache_keys n cs)"
  shows "distinct (cache_keys n (cache_put m req r cs))"
proof (cases "n = m \<and> m \<in> set (caches_keys cs)")
  case True
  have keys: "map fst (filter (\<lambda>(k, v). k \<noteq> url req) c @ [(url req, r)]) =
      filter (\<lambda>k. k \<noteq> url req) (map fst c) @ [url req]" for c :: cache
    by (induction c) auto
  have "distinct (map fst (entries cs m))"
    using assms True by (simp add: cache_keys_def)
  then have "distinct (filter (\<lambda>k. k \<noteq> url req) (map fst (entries cs m)) @ [url req])"
    by simp
  moreover have "cache_keys n (cache_put m req r cs) =
      filter (\<lambda>k. k \<noteq> url req) (map fst (entries cs m)) @ [url req]"
  proof -
    have "entries (cache_put m req r cs) n =
        filter (\<lambda>(k, v). k \<noteq> url req) (entries cs m) @ [(url req, r)]"
      using True by (simp add: cache_put_def entries_update_cache)
    then show ?thesis
      by (simp only: cache_keys_def keys)
  qed
  ultimately show ?thesis
    by (simp only:)
next
  case False
  then have "entries (cache_put m req r cs) n = entries cs n"
    unfolding cache_put_def entries_update_cache by (simp only: if_False)
  then show ?thesis
    using assms by (simp add: cache_keys_def)
qed

subsection \<open>The trimmer\<close>

lemma filter_key_drop:
  assumes "distinct (map fst es)" "i < length es"
  shows "filter (\<lambda>(k', v). k' \<noteq> map fst es ! i) (drop i es) = drop (Suc i) es"
proof -
  have split: "drop i es = es ! i # drop (Suc i) es"
    using assms(2) by (simp add: Cons_nth_drop_Suc)
  have "distinct (map fst (drop i es))"
    using assms(1) by (simp add: distinct_drop drop_map [symmetric])
  then have "fst (es ! i) \<notin> fst ` set (drop (Suc i) es)"
    by (simp add: split)
  then have "filter (\<lambda>(k', v). k' \<noteq> fst (es ! i)) (drop (Suc i) es) = drop (Suc i) es"
    by (intro filter_True) (auto simp: image_iff)
  then show ?thesis
    using assms(2) by (simp add: split case_prod_beta)
qed

lemma trim_loop_entries:
  assumes "distinct (map fst es)" "entries cs name = drop i es" "keys = map fst es"
    "d \<le> length es" "i \<le> d"
  shows "entries (trim_loop name keys d i cs) name = drop d es"
  using assms
proof (induction name keys d i cs rule: trim_loop.induct)
  case (1 cacheName keys deletions i cs)
  show ?case
  proof (cases "i < deletions")
    case True
    have "entries (cache_delete cacheName (keys ! i) cs) cacheName = drop (Suc i) es"
      using "1.prems" True filter_key_drop [of es i]
      by (simp add: entries_cache_delete)
    then show ?thesis
      using "1.IH" [OF True "1.prems"(1) _ "1.prems"(3,4)] True
      by (subst trim_loop.simps) simp
  next
    case False
    then show ?thesis
      using "1.prems" by (subst trim_loop.simps) simp
  qed
qed

lemma trim_loop_other:
  "n \<noteq> name \<Longrightarrow> entries (trim_loop name keys d i cs) n = entries cs n"
proof (induction name keys d i cs rule: trim_loop.induct)
  case (1 cacheName keys deletions i cs)
  then show ?case
    by (subst trim_loop.simps) (simp add: entries_cache_delete)
qed

text \<open>
  Claim C5. \<open>trimCache\<close> on a store whose keys are distinct (a cache holds one entry for a
  request): when the store has at most \<open>maxItems\<close> keys, its entries stay as they are (and
  the whole storage, when the store exists); otherwise exactly the first
  \<open>count - maxItems\<close> keys in insertion order are deleted, so that the \<open>maxItems\<close> entries
  inserted last remain. In both cases at most \<open>maxItems\<close> keys remain, and the other stores
  are not touched.
\<close>

theorem trimCache_keeps_newest:
  assumes "distinct (cache_keys name cs)"
  shows "(length (cache_keys name cs) \<le> maxItems \<longrightarrow>
            entries (trimCache name maxItems cs) name = entries cs name \<and>
            (name \<in> set (caches_keys cs) \<longrightarrow> trimCache name maxItems cs = cs)) \<and>
         (maxItems < length (cache_keys name cs) \<longrightarrow>
            entries (trimCache name maxItems cs) name =
              drop (length (cache_keys name cs) - maxItems) (entries cs name) \<and>
            cache_keys name (trimCache name maxItems cs) =
              drop (length (cache_keys name cs) - maxItems) (cache_keys name cs) \<and>
            length (cache_keys name (trimCache name maxItems cs)) = maxItems) \<and>
         length (cache_keys name (trimCache name maxItems cs)) \<le> maxItems \<and>
         (\<forall>n. n \<noteq> name \<longrightarrow> entries (trimCache name maxItems cs) n = entries cs n)"
proof -
  let ?es = "entries cs name"
  let ?d = "length ?es - maxItems"
  have keys: "cache_keys name (caches_open name cs) = map fst ?es"
    by (simp add: cache_keys_def)
  have small: "trimCache name maxItems cs = caches_open name cs" if "length ?es \<le> maxItems"
    using that by (simp add: trimCache_def Let_def keys)
  have big: "trimCache name maxItems cs =
      trim_loop name (map fst ?es) ?d 0 (caches_open name cs)" if "maxItems < length ?es"
    using that by (simp add: trimCache_def Let_def keys)
  have dropped: "entries (trimCache name maxItems cs) name = drop ?d ?es"
    if "maxItems < length ?es"
    unfolding big [OF that]
    using assms by (intro trim_loop_entries) (simp_all add: cache_keys_def)
  have other: "entries (trimCache name maxItems cs) n = entries cs n" if "n \<noteq> name" for n
  proof (cases "length ?es \<le> maxItems")
    case True
    then show ?thesis by (simp add: small)
  next
    case False
    then have "maxItems < length ?es" by simp
    then show ?thesis by (simp add: big trim_loop_other [OF that])
  qed
  have same: "trimCache name maxItems cs = cs"
    if "length ?es \<le> maxItems" "name \<in> set (caches_keys cs)"
    by (simp add: small [OF that(1)] caches_open_def that(2))
  show ?thesis
  proof (cases "length ?es \<le> maxItems")
    case True
    have "entries (trimCache name maxItems cs) name = ?es"
      by (simp add: small [OF True])
    with True same other show ?thesis
      by (simp add: cache_keys_def)
  next
    case False
    then have lt: "maxItems < length ?es" by simp
    have "length (drop ?d ?es) = maxItems"
      using lt by simp
    with lt dropped [OF lt] other show ?thesis
      by (simp add: cache_keys_def drop_map)
  qed
qed

theorem trimCache_keeps_newest_witness:
  "distinct (cache_keys ''img''
     [(''img'', [(url asset_request, found), (url page_request, found), (url api_request, not_found)])]) \<and>
   entries (trimCache ''img'' 2
     [(''img'', [(url asset_request, found), (url page_request, found), (url api_request, not_found)])])
     ''img'' = [(url page_request, found), (url api_request, not_found)] \<and>
   entries (trimCache ''img'' 3
     [(''img'', [(url asset_request, found), (url page_request, found), (url api_request, not_found)])])
     ''img'' = [(url asset_request, found), (url page_request, found), (url api_request, not_found)]"
proof -
  have keys: "distinct (cache_keys ''img''
     [(''img'', [(url asset_request, found), (url page_request, found), (url api_request, not_found)])])"
    by (simp add: cache_keys_def entries_def asset_request_def page_request_def api_request_def)
  show ?thesis
    using trimCache_keeps_newest [OF keys, of 2] trimCache_keeps_newest [OF keys, of 3] keys
    by (simp add: cache_keys_def entries_def)
qed

subsection \<open>The activation sweep\<close>

lemma fold_caches_delete:
  "fold caches_delete names cs = filter (\<lambda>(n, c). n \<notin> set names) cs"
proof (induction names arbitrary: cs)
  case Nil
  then show ?case by simp
next
  case (Cons a names)
  have "fold caches_delete (a # names) cs = fold caches_delete names (caches_delete a cs)"
    by simp
  also have "\<dots> = filter (\<lambda>(n, c). n \<notin> set names) (caches_delete a cs)"
    by (rule Cons.IH)
  also have "\<dots> = filter (\<lambda>(n, c). n \<notin> set (a # names)) cs"
    unfolding caches_delete_def filter_filter
    by (rule filter_cong) auto
  finally show ?case .
qed

lemma activate_filter: "activate ver cs = filter (\<lambda>(n, c). \<not> stale ver n) cs"
proof -
  have "(n \<notin> set (filter (stale ver) (caches_keys cs))) = (\<not> stale ver n)"
    if "(n, c) \<in> set cs" for n c
    using that by (force simp: caches_keys_def)
  then show ?thesis
    unfolding activate_def Let_def fold_caches_delete
    by (intro filter_cong) auto
qed

lemma caches_keys_activate:
  "set (caches_keys (activate ver cs)) = {n \<in> set (caches_keys cs). \<not> stale ver n}"
  by (auto simp: activate_filter caches_keys_def image_iff)

lemma img_stale: "stale ver (RUNTIME_CACHE ver @ ''-img'')"
  by (simp add: stale_def startsWith_def RUNTIME_CACHE_def PRECACHE_def)

lemma old_stale:
  "v1 \<noteq> v2 \<Longrightarrow> stale v2 (PRECACHE v1)"
  "v1 \<noteq> v2 \<Longrightarrow> stale v2 (RUNTIME_CACHE v1)"
  "v2 \<noteq> v1 @ ''-img'' \<Longrightarrow> stale v2 (RUNTIME_CACHE v1 @ ''-img'')"
  by (simp_all add: stale_def startsWith_def RUNTIME_CACHE_def PRECACHE_def)

text \<open>
  Claim C6. Activation deletes exactly the stores whose name starts with \<open>quotesn-\<close> and is
  neither the precache nor the runtime store name of the current version; the other stores
  stay as they are, in order. In particular, for a version \<open>v1\<close> other than the current
  one, the precache and runtime stores of \<open>v1\<close> are gone afterwards, and so is the image
  store of \<open>v1\<close> (unless its name is the current runtime store name).
\<close>

theorem activate_sweep:
  "activate ver cs =
     filter (\<lambda>(n, c). \<not> (startsWith n ''quotesn-'' \<and> n \<noteq> PRECACHE ver \<and> n \<noteq> RUNTIME_CACHE ver)) cs
   \<and> set (caches_keys (activate ver cs)) =
     {n \<in> set (caches_keys cs).
        \<not> (startsWith n ''quotesn-'' \<and> n \<noteq> PRECACHE ver \<and> n \<noteq> RUNTIME_CACHE ver)}
   \<and> (\<forall>v1. v1 \<noteq> ver \<longrightarrow>
        PRECACHE v1 \<notin> set (caches_keys (activate ver cs)) \<and>
        RUNTIME_CACHE v1 \<notin> set (caches_keys (activate ver cs)) \<and>
        (ver \<noteq> v1 @ ''-img'' \<longrightarrow>
           RUNTIME_CACHE v1 @ ''-img'' \<notin> set (caches_keys (activate ver cs))))"
proof -
  have kept: "activate ver cs =
      filter (\<lambda>(n, c). \<not> (startsWith n ''quotesn-'' \<and> n \<noteq> PRECACHE ver \<and> n \<noteq> RUNTIME_CACHE ver)) cs"
    using activate_filter [of ver cs] by (simp add: stale_def)
  have names: "set (caches_keys (activate ver cs)) =
      {n \<in> set (caches_keys cs).
         \<not> (startsWith n ''quotesn-'' \<and> n \<noteq> PRECACHE ver \<and> n \<noteq> RUNTIME_CACHE ver)}"
    using caches_keys_activate [of ver cs] by (simp add: stale_def)
  have gone: "n \<notin> set (caches_keys (activate ver cs))" if "stale ver n" for n
    using that by (simp add: caches_keys_activate)
  have old: "PRECACHE v1 \<notin> set (caches_keys (activate ver cs)) \<and>
        RUNTIME_CACHE v1 \<notin> set (caches_keys (activate ver cs)) \<and>
        (ver \<noteq> v1 @ ''-img'' \<longrightarrow>
           RUNTIME_CACHE v1 @ ''-img'' \<notin> set (caches_keys (activate ver cs)))"
    if "v1 \<noteq> ver" for v1
    using that by (simp add: gone old_stale)
  show ?thesis
    using kept names old by (intro conjI allI impI) simp_all
qed

theorem activate_sweep_witness:
  "''v1'' \<noteq> ''v2'' \<and> ''v2'' \<noteq> ''v1'' @ ''-img'' \<and>
   activate ''v2''
     [(PRECACHE ''v1'', []), (RUNTIME_CACHE ''v1'', []), (RUNTIME_CACHE ''v1'' @ ''-img'', []),
      (PRECACHE ''v2'', []), (RUNTIME_CACHE ''v2'', []), (''fonts'', [])] =
     [(PRECACHE ''v2'', []), (RUNTIME_CACHE ''v2'', []), (''fonts'', [])] \<and>
   PRECACHE ''v1'' \<notin> set (caches_keys (activate ''v2''
     [(PRECACHE ''v1'', []), (RUNTIME_CACHE ''v1'', []), (RUNTIME_CACHE ''v1'' @ ''-img'', []),
      (PRECACHE ''v2'', []), (RUNTIME_CACHE ''v2'', []), (''fonts'', [])])) \<and>
   RUNTIME_CACHE ''v1'' \<notin> set (caches_keys (activate ''v2''
     [(PRECACHE ''v1'', []), (RUNTIME_CACHE ''v1'', []), (RUNTIME_CACHE ''v1'' @ ''-img'', []),
      (PRECACHE ''v2'', []), (RUNTIME_CACHE ''v2'', []), (''fonts'', [])])) \<and>
   RUNTIME_CACHE ''v1'' @ ''-img'' \<notin> set (caches_keys (activate ''v2''
     [(PRECACHE ''v1'', []), (RUNTIME_CACHE ''v1'', []), (RUNTIME_CACHE ''v1'' @ ''-img'', []),
      (PRECACHE ''v2'', []), (RUNTIME_CACHE ''v2'', []), (''fonts'', [])]))"
proof -
  let ?cs = "[(PRECACHE ''v1'', []), (RUNTIME_CACHE ''v1'', []), (RUNTIME_CACHE ''v1'' @ ''-img'', []),
      (PRECACHE ''v2'', []), (RUNTIME_CACHE ''v2'', []), (''fonts'', [])]"
  note sweep = activate_sweep [of "''v2''" ?cs]
  have ne: "''v1'' \<noteq> ''v2''" "''v2'' \<noteq> ''v1'' @ ''-img''"
    by simp_all
  have "activate ''v2'' ?cs =
      filter (\<lambda>(n, c). \<not> (startsWith n ''quotesn-'' \<and> n \<noteq> PRECACHE ''v2'' \<and>
        n \<noteq> RUNTIME_CACHE ''v2'')) ?cs"
    using sweep by (elim conjE)
  also have "\<dots> = [(PRECACHE ''v2'', []), (RUNTIME_CACHE ''v2'', []), (''fonts'', [])]"
    by (simp add: PRECACHE_def RUNTIME_CACHE_def startsWith_def)
  finally have kept: "activate ''v2'' ?cs =
      [(PRECACHE ''v2'', []), (RUNTIME_CACHE ''v2'', []), (''fonts'', [])]" .
  have "\<forall>v1. v1 \<noteq> ''v2'' \<longrightarrow>
        PRECACHE v1 \<notin> set (caches_keys (activate ''v2'' ?cs)) \<and>
        RUNTIME_CACHE v1 \<notin> set (caches_keys (activate ''v2'' ?cs)) \<and>
        (''v2'' \<noteq> v1 @ ''-img'' \<longrightarrow>
           RUNTIME_CACHE v1 @ ''-img'' \<notin> set (caches_keys (activate ''v2'' ?cs)))"
    using sweep by (elim conjE)
  note old = this [rule_format, OF ne(1)]
  note gone = old [THEN conjunct1] old [THEN conjunct2, THEN conjunct1]
    old [THEN conjunct2, THEN conjunct2, rule_format, OF ne(2)]
  show ?thesis
    using ne kept gone by (intro conjI)
qed

text \<open>
  Claim C10. The image store of the current version, \<open>RUNTIME_CACHE-img\<close>, starts with
  \<open>quotesn-\<close> and is neither of the two names the sweep spares: every activation deletes
  it, so that no image is cached afterwards, also when the version has not changed.
\<close>

theorem activate_deletes_image_store:
  "stale ver (RUNTIME_CACHE ver @ ''-img'') \<and>
   RUNTIME_CACHE ver @ ''-img'' \<notin> set (caches_keys (activate ver cs)) \<and>
   entries (activate ver cs) (RUNTIME_CACHE ver @ ''-img'') = [] \<and>
   (\<forall>req. cache_match (RUNTIME_CACHE ver @ ''-img'') req (activate ver cs) = None)"
proof -
  have gone: "RUNTIME_CACHE ver @ ''-img'' \<notin> set (caches_keys (activate ver cs))"
    by (simp add: caches_keys_activate img_stale)
  then have "entries (activate ver cs) (RUNTIME_CACHE ver @ ''-img'') = []"
    by (rule entries_absent)
  then show ?thesis
    using gone img_stale by (simp add: cache_match_def)
qed

subsection \<open>The fetch listener\<close>

lemma to_lower_dot: "to_lower c = CHR ''.'' \<longleftrightarrow> c = CHR ''.''"
  by (simp add: to_lower_def)

lemma match_literal_Some:
  "match_literal e t = Some t' \<longleftrightarrow> (\<exists>u. t = u @ t' \<and> map to_lower u = e)"
proof (induction e t rule: match_literal.induct)
  case (1 s)
  then show ?case by auto
next
  case (2 p ps)
  then show ?case by auto
next
  case (3 p ps c s)
  have "(\<exists>u. c # s = u @ t' \<and> map to_lower u = p # ps) \<longleftrightarrow>
        to_lower c = p \<and> (\<exists>u. s = u @ t' \<and> map to_lower u = ps)"
    by (auto simp: Cons_eq_append_conv map_eq_Cons_conv)
  with 3 show ?case by simp
qed

lemma match_tail_no_query: "CHR ''?'' \<notin> set s \<Longrightarrow> match_tail s \<longleftrightarrow> s = []"
  by (cases s) (auto simp: match_tail_def)

lemma match_here_no_query:
  assumes "CHR ''?'' \<notin> set s"
  shows "match_here s \<longleftrightarrow> (\<exists>u. s = CHR ''.'' # u \<and> map to_lower u \<in> set image_extensions)"
proof (cases s)
  case Nil
  then show ?thesis by (simp add: match_here_def)
next
  case (Cons c t)
  have tail: "match_tail t' \<longleftrightarrow> t' = []" if "match_literal e t = Some t'" for e t'
  proof -
    from that obtain u where "t = u @ t'" by (auto simp: match_literal_Some)
    with assms Cons have "CHR ''?'' \<notin> set t'" by auto
    then show ?thesis by (rule match_tail_no_query)
  qed
  have "(case match_literal e t of None \<Rightarrow> False | Some t' \<Rightarrow> match_tail t') \<longleftrightarrow>
        map to_lower t = e" for e
  proof (cases "match_literal e t")
    case None
    then have "\<not> (\<exists>u. t = u @ [] \<and> map to_lower u = e)"
      using match_literal_Some [of e t "[]"] by simp
    with None show ?thesis by simp
  next
    case (Some t')
    show ?thesis
      using tail [OF Some] Some match_literal_Some [of e t "[]"] by auto
  qed
  then show ?thesis
    by (auto simp: match_here_def Cons)
qed

lemma image_regex_test_iff: "image_regex_test s \<longleftrightarrow> (\<exists>p t. s = p @ t \<and> match_here t)"
proof (induction s)
  case Nil
  then show ?case by (simp add: match_here_def)
next
  case (Cons c s)
  have "(\<exists>p t. c # s = p @ t \<and> match_here t) \<longleftrightarrow>
        match_here (c # s) \<or> (\<exists>p t. s = p @ t \<and> match_here t)"
    by (auto simp: Cons_eq_append_conv)
  with Cons show ?case by simp
qed

lemma has_raster_extension_iff:
  "has_raster_extension s \<longleftrightarrow>
     (\<exists>p u. s = p @ CHR ''.'' # u \<and> map to_lower u \<in> set image_extensions)"
proof -
  have "suffix (''.'' @ e) (map to_lower s) \<longleftrightarrow>
        (\<exists>p u. s = p @ CHR ''.'' # u \<and> map to_lower u = e)" for e
  proof
    assume "suffix (''.'' @ e) (map to_lower s)"
    then obtain zs where "map to_lower s = zs @ CHR ''.'' # e"
      by (auto simp: suffix_def)
    then obtain p t where s: "s = p @ t" and t: "map to_lower t = CHR ''.'' # e"
      by (auto simp: map_eq_append_conv)
    from t obtain c u where "t = c # u" "to_lower c = CHR ''.''" "map to_lower u = e"
      by (auto simp: map_eq_Cons_conv)
    with s show "\<exists>p u. s = p @ CHR ''.'' # u \<and> map to_lower u = e"
      by (auto simp: to_lower_dot)
  next
    assume "\<exists>p u. s = p @ CHR ''.'' # u \<and> map to_lower u = e"
    then obtain p u where s: "s = p @ CHR ''.'' # u" and u: "map to_lower u = e"
      by blast
    have "to_lower CHR ''.'' = CHR ''.''"
      by (simp add: to_lower_dot)
    then have "map to_lower s = map to_lower p @ (''.'' @ e)"
      by (simp add: s u)
    then show "suffix (''.'' @ e) (map to_lower s)"
      unfolding suffix_def by blast
  qed
  then have "(\<exists>e \<in> set image_extensions. suffix (''.'' @ e) (map to_lower s)) \<longleftrightarrow>
      (\<exists>e \<in> set image_extensions. \<exists>p u. s = p @ CHR ''.'' # u \<and> map to_lower u = e)"
    by (simp only:)
  also have "\<dots> \<longleftrightarrow> (\<exists>p u. s = p @ CHR ''.'' # u \<and> map to_lower u \<in> set image_extensions)"
    by blast
  finally show ?thesis
    by (simp only: has_raster_extension_def image_extensions_def)
qed

lemma image_regex_test_extension:
  assumes "CHR ''?'' \<notin> set s"
  shows "image_regex_test s \<longleftrightarrow> has_raster_extension s"
proof -
  have "match_here t \<longleftrightarrow> (\<exists>u. t = CHR ''.'' # u \<and> map to_lower u \<in> set image_extensions)"
    if "s = p @ t" for p t
    using assms that by (intro match_here_no_query) auto
  then show ?thesis
    unfolding image_regex_test_iff has_raster_extension_iff by blast
qed

text \<open>
  Claim C1. The listener hands a request to exactly one strategy, the first that matches:
  a request that is not a GET is not intercepted; a navigation, or a request whose
  \<open>accept\<close> header contains \<open>text/html\<close>, goes to \<open>handleHTMLNavigation\<close>; a same-origin
  request goes to \<open>staleWhileRevalidate\<close> on the runtime store; a request with destination
  \<open>image\<close>, or whose path ends (ignoring case) in one of the raster-image extensions, goes
  to \<open>cacheFirstWithLimit\<close> on the image store with the configured cap; every other request
  goes to \<open>networkFallingBackToCache\<close>. The path of a parsed URL holds no question mark
  (the query is in \<open>search\<close>), which is the hypothesis.
\<close>

theorem fetch_listener_first_match:
  assumes "CHR ''?'' \<notin> set (pathname (url req))"
  shows "on_fetch ver loc net req cs =
    (if method req \<noteq> ''GET'' then None
     else if mode req = ''navigate'' \<or> sublist ''text/html'' (accept_header req)
       then Some (handleHTMLNavigation ver net req cs)
     else if origin (url req) = loc
       then Some (staleWhileRevalidate net req (RUNTIME_CACHE ver) cs)
     else if destination req = ''image'' \<or> has_raster_extension (pathname (url req))
       then Some (cacheFirstWithLimit net req (RUNTIME_CACHE ver @ ''-img'') IMAGE_CACHE_MAX_ITEMS cs)
     else Some (networkFallingBackToCache net req (RUNTIME_CACHE ver) cs))"
  unfolding on_fetch_def route_def image_regex_test_extension [OF assms]
  by simp

theorem fetch_listener_first_match_witness:
  "CHR ''?'' \<notin> set (pathname (url photo_request)) \<and>
   on_fetch VERSION site_origin unreachable photo_request [] =
     Some (cacheFirstWithLimit unreachable photo_request (RUNTIME_CACHE VERSION @ ''-img'')
             IMAGE_CACHE_MAX_ITEMS [])"
proof -
  have path: "CHR ''?'' \<notin> set (pathname (url photo_request))"
    by (simp add: photo_request_def)
  have ext: "has_raster_extension (pathname (url photo_request))"
    by (simp add: has_raster_extension_def photo_request_def to_lower_def suffix_to_prefix
        prefix_code)
  have other: "method photo_request = ''GET''" "mode photo_request \<noteq> ''navigate''"
    "\<not> sublist ''text/html'' (accept_header photo_request)"
    "origin (url photo_request) \<noteq> site_origin"
    by (simp_all add: photo_request_def accept_header_def site_origin_def sublist_code)
  show ?thesis
    using fetch_listener_first_match [OF path, of VERSION site_origin unreachable "[]"]
      path ext other
    by simp
qed

subsection \<open>The strategies\<close>

lemma fetch_network [simp]:
  "protocol (url req) \<noteq> ''data:'' \<Longrightarrow> fetch net req = (net req, [req])"
  by (simp add: fetch_def)

text \<open>
  Claim C2 (stale-while-revalidate returns a 504 response when the request is not cached and
  the network fails) does not hold of the code. For a same-origin asset that is not cached,
  with the network unreachable, \<open>cached || fetchPromise\<close> is the promise, which is truthy,
  so the 504 response is never reached and the function resolves to \<open>null\<close>.
\<close>

theorem swr_miss_offline_null:
  "staleWhileRevalidate unreachable asset_request (RUNTIME_CACHE VERSION) [] =
     \<lparr>settles = Fulfilled Null, storage = [(RUNTIME_CACHE VERSION, [])],
      fetches = [asset_request]\<rparr>"
  by (simp add: staleWhileRevalidate_def caches_open_def caches_keys_def cache_match_def
      entries_def of_option_def fetch_def unreachable_def asset_request_def js_or_def)

lemma cache_match_open [simp]:
  "cache_match name req (caches_open n cs) = cache_match name req cs"
  by (simp add: cache_match_def)

lemma cache_match_present:
  "cache_match name req cs = Some c \<Longrightarrow> name \<in> set (caches_keys cs)"
proof (rule ccontr)
  assume hit: "cache_match name req cs = Some c" and "name \<notin> set (caches_keys cs)"
  then have "entries cs name = []" by (simp add: entries_absent)
  with hit show False by (simp add: cache_match_def)
qed

lemma fetch_fallbackImg:
  "fetch net (Request fallbackImg) =
     (NetResponse
        \<lparr>status = 200, rtype = Basic, rheaders = [(''content-type'', ''image/png'')],
         body = ''iVBORw0KGgoAAAANSUhEUgAAAAEAAAABCAQAAAC1HAwCAAAAC0lEQVR42mP8/xcAAt8B3y8y0dQAAAAASUVORK5CYII=''\<rparr>,
      [])"
  by (simp add: fetch_def Request_def fallbackImg_def data_url_response_def)

text \<open>
  Claim C3 (every intercepted GET request resolves to a Response, never to \<open>null\<close>) does not
  hold of the code. The listener intercepts a same-origin asset request; with nothing cached
  and the network unreachable, the promise given to \<open>respondWith\<close> resolves to \<open>null\<close>.
\<close>

theorem fetch_listener_resolves_null:
  "map_option settles (on_fetch VERSION site_origin unreachable asset_request []) =
     Some (Fulfilled Null)"
  by (simp add: on_fetch_def route_def site_origin_def accept_header_def sublist_code
      staleWhileRevalidate_def caches_open_def caches_keys_def cache_match_def
      entries_def of_option_def fetch_def unreachable_def asset_request_def js_or_def)

text \<open>
  Claim C7. When the network fetch of a navigation fails and no cache holds an entry for the
  request, \<open>handleHTMLNavigation\<close> returns a response with status 200, content type
  \<open>text/html; charset=utf-8\<close> and the offline document as its body.
\<close>

theorem navigation_offline_document:
  assumes "fst (fetch net req) = NetworkError" and "caches_match req cs = None"
  shows "settles (handleHTMLNavigation ver net req cs) =
           Fulfilled (Resp
             \<lparr>status = 200, rtype = Default,
              rheaders = [(''content-type'', ''text/html; charset=utf-8'')],
              body = OFFLINE_HTML\<rparr>)"
proof -
  obtain sent where "fetch net req = (NetworkError, sent)"
    using assms(1) by (cases "fetch net req") simp
  then show ?thesis
    using assms(2) by (simp add: handleHTMLNavigation_def of_option_def)
qed

theorem navigation_offline_document_witness:
  "fst (fetch unreachable page_request) = NetworkError \<and>
   caches_match page_request [(RUNTIME_CACHE VERSION, [(url asset_request, found)])] = None \<and>
   settles (handleHTMLNavigation VERSION unreachable page_request
              [(RUNTIME_CACHE VERSION, [(url asset_request, found)])]) =
     Fulfilled (Resp
       \<lparr>status = 200, rtype = Default,
        rheaders = [(''content-type'', ''text/html; charset=utf-8'')],
        body = OFFLINE_HTML\<rparr>)"
  using navigation_offline_document
    [of unreachable page_request "[(RUNTIME_CACHE VERSION, [(url asset_request, found)])]" VERSION]
  by (simp add: fetch_def unreachable_def page_request_def asset_request_def)

text \<open>
  Claim C8. When the network fetch of \<open>cacheFirstWithLimit\<close> fails, the strategy does not
  reject: it returns the embedded 1x1 PNG placeholder, a fixed response (the fetch is only
  made on a cache miss; on a hit the cached entry is returned).
\<close>

theorem cacheFirstWithLimit_network_failure:
  assumes "fst (fetch net (req\<lparr>mode := ''no-cors''\<rparr>)) = NetworkError"
  shows "settles (cacheFirstWithLimit net req name maxItems cs) =
           Fulfilled (Resp
             (case cache_match name req cs of
                Some c \<Rightarrow> c
              | None \<Rightarrow>
                  \<lparr>status = 200, rtype = Basic, rheaders = [(''content-type'', ''image/png'')],
                   body = ''iVBORw0KGgoAAAANSUhEUgAAAAEAAAABCAQAAAC1HAwCAAAAC0lEQVR42mP8/xcAAt8B3y8y0dQAAAAASUVORK5CYII=''\<rparr>))"
proof -
  obtain sent where "fetch net (req\<lparr>mode := ''no-cors''\<rparr>) = (NetworkError, sent)"
    using assms by (cases "fetch net (req\<lparr>mode := ''no-cors''\<rparr>)") simp
  then show ?thesis
    by (cases "cache_match name req cs")
       (simp_all add: cacheFirstWithLimit_def of_option_def fetch_fallbackImg)
qed

theorem cacheFirstWithLimit_network_failure_witness:
  "fst (fetch unreachable (photo_request\<lparr>mode := ''no-cors''\<rparr>)) = NetworkError \<and>
   cache_match (RUNTIME_CACHE VERSION @ ''-img'') photo_request [] = None \<and>
   settles (cacheFirstWithLimit unreachable photo_request (RUNTIME_CACHE VERSION @ ''-img'')
              IMAGE_CACHE_MAX_ITEMS []) =
     Fulfilled (Resp
       \<lparr>status = 200, rtype = Basic, rheaders = [(''content-type'', ''image/png'')],
        body = ''iVBORw0KGgoAAAANSUhEUgAAAAEAAAABCAQAAAC1HAwCAAAAC0lEQVR42mP8/xcAAt8B3y8y0dQAAAAASUVORK5CYII=''\<rparr>)"
  using cacheFirstWithLimit_network_failure
    [of unreachable photo_request "RUNTIME_CACHE VERSION @ ''-img''" IMAGE_CACHE_MAX_ITEMS "[]"]
  by (simp add: fetch_def unreachable_def photo_request_def cache_match_def entries_def)

text \<open>
  Claim C9. On a request with a cached entry, \<open>cacheFirstWithLimit\<close> returns that entry,
  sends nothing to the network and leaves the cache storage as it is.
\<close>

theorem cacheFirstWithLimit_hit:
  assumes "cache_match name req cs = Some c"
  shows "cacheFirstWithLimit net req name maxItems cs =
           \<lparr>settles = Fulfilled (Resp c), storage = cs, fetches = []\<rparr>"
proof -
  have "caches_open name cs = cs"
    using cache_match_present [OF assms] by (simp add: caches_open_def)
  then show ?thesis
    using assms by (simp add: cacheFirstWithLimit_def of_option_def)
qed

theorem cacheFirstWithLimit_hit_witness:
  "cache_match ''img'' photo_request [(''img'', [(url photo_request, found)])] = Some found \<and>
   cacheFirstWithLimit unreachable photo_request ''img'' 60 [(''img'', [(url photo_request, found)])] =
     \<lparr>settles = Fulfilled (Resp found), storage = [(''img'', [(url photo_request, found)])],
      fetches = []\<rparr>"
  using cacheFirstWithLimit_hit
    [of "''img''" photo_request "[(''img'', [(url photo_request, found)])]" found unreachable 60]
  by (simp add: cache_match_def entries_def)

text \<open>
  Claim C4, as stated for every strategy, fails. With a 404 response from the network
  (neither \<open>ok\<close> nor opaque): \<open>staleWhileRevalidate\<close> returns the cached entry when there
  is one, not the network response; and \<open>handleHTMLNavigation\<close> stores the 404 response in
  the runtime store.
\<close>

theorem unusable_response_counterexample:
  "\<not> ok not_found \<and> rtype not_found \<noteq> Opaque \<and>
   fst (fetch (answering not_found) asset_request) = NetResponse not_found \<and>
   settles (staleWhileRevalidate (answering not_found) asset_request (RUNTIME_CACHE VERSION)
              [(RUNTIME_CACHE VERSION, [(url asset_request, found)])]) = Fulfilled (Resp found) \<and>
   found \<noteq> not_found \<and>
   fst (fetch (answering not_found) page_request) = NetResponse not_found \<and>
   cache_match (RUNTIME_CACHE VERSION) page_request
     (storage (handleHTMLNavigation VERSION (answering not_found) page_request [])) =
     Some not_found"
  by (simp add: ok_def not_found_def found_def fetch_def answering_def asset_request_def
      page_request_def staleWhileRevalidate_def handleHTMLNavigation_def caches_open_def
      caches_keys_def cache_match_def cache_put_def update_cache_def entries_def
      of_option_def js_or_def)

text \<open>
  Claim C4, amended. When the fetch succeeds with a response that is neither \<open>ok\<close> nor
  opaque: \<open>staleWhileRevalidate\<close>, \<open>cacheFirstWithLimit\<close> (on a miss) and
  \<open>networkFallingBackToCache\<close> store nothing (the first two at most open the store they
  were given, the third leaves the storage as it is), and the caller gets that response
  as it is, except that \<open>staleWhileRevalidate\<close> returns the cached entry when there is one.
  \<open>handleHTMLNavigation\<close> returns the response as it is.
\<close>

theorem unusable_response_not_cached:
  assumes "\<not> ok r" and "rtype r \<noteq> Opaque"
  shows "(fst (fetch net req) = NetResponse r \<longrightarrow>
            storage (staleWhileRevalidate net req name cs) = caches_open name cs \<and>
            (\<forall>n. entries (storage (staleWhileRevalidate net req name cs)) n = entries cs n) \<and>
            settles (staleWhileRevalidate net req name cs) =
              Fulfilled (Resp (case cache_match name req cs of Some c \<Rightarrow> c | None \<Rightarrow> r))) \<and>
         (cache_match name req cs = None \<and>
          fst (fetch net (req\<lparr>mode := ''no-cors''\<rparr>)) = NetResponse r \<longrightarrow>
            storage (cacheFirstWithLimit net req name maxItems cs) = caches_open name cs \<and>
            (\<forall>n. entries (storage (cacheFirstWithLimit net req name maxItems cs)) n = entries cs n) \<and>
            settles (cacheFirstWithLimit net req name maxItems cs) = Fulfilled (Resp r)) \<and>
         (fst (fetch net req) = NetResponse r \<longrightarrow>
            storage (networkFallingBackToCache net req name cs) = cs \<and>
            settles (networkFallingBackToCache net req name cs) = Fulfilled (Resp r)) \<and>
         (fst (fetch net req) = NetResponse r \<longrightarrow>
            settles (handleHTMLNavigation ver net req cs) = Fulfilled (Resp r))"
proof -
  have swr: "storage (staleWhileRevalidate net req name cs) = caches_open name cs \<and>
      settles (staleWhileRevalidate net req name cs) =
        Fulfilled (Resp (case cache_match name req cs of Some c \<Rightarrow> c | None \<Rightarrow> r))"
    if got: "fst (fetch net req) = NetResponse r"
  proof -
    obtain sent where "fetch net req = (NetResponse r, sent)"
      using got by (cases "fetch net req") simp
    then show ?thesis
      using assms
      by (cases "cache_match name req cs")
         (simp_all add: staleWhileRevalidate_def of_option_def js_or_def)
  qed
  have cfl: "storage (cacheFirstWithLimit net req name maxItems cs) = caches_open name cs \<and>
      settles (cacheFirstWithLimit net req name maxItems cs) = Fulfilled (Resp r)"
    if miss: "cache_match name req cs = None"
      and got: "fst (fetch net (req\<lparr>mode := ''no-cors''\<rparr>)) = NetResponse r"
  proof -
    obtain sent where "fetch net (req\<lparr>mode := ''no-cors''\<rparr>) = (NetResponse r, sent)"
      using got by (cases "fetch net (req\<lparr>mode := ''no-cors''\<rparr>)") simp
    then show ?thesis
      using assms miss by (simp add: cacheFirstWithLimit_def of_option_def)
  qed
  have nfc: "storage (networkFallingBackToCache net req name cs) = cs \<and>
      settles (networkFallingBackToCache net req name cs) = Fulfilled (Resp r)"
    if got: "fst (fetch net req) = NetResponse r"
  proof -
    obtain sent where "fetch net req = (NetResponse r, sent)"
      using got by (cases "fetch net req") simp
    then show ?thesis
      using assms by (simp add: networkFallingBackToCache_def)
  qed
  have nav: "settles (handleHTMLNavigation ver net req cs) = Fulfilled (Resp r)"
    if got: "fst (fetch net req) = NetResponse r"
  proof -
    obtain sent where "fetch net req = (NetResponse r, sent)"
      using got by (cases "fetch net req") simp
    then show ?thesis
      by (simp add: handleHTMLNavigation_def Let_def)
  qed
  show ?thesis
    using swr cfl nfc nav by simp
qed

theorem unusable_response_not_cached_witness:
  "\<not> ok not_found \<and> rtype not_found \<noteq> Opaque \<and>
   fst (fetch (answering not_found) api_request) = NetResponse not_found \<and>
   cache_match ''c'' api_request [(''c'', [(url asset_request, found)])] = None \<and>
   fst (fetch (answering not_found) (api_request\<lparr>mode := ''no-cors''\<rparr>)) = NetResponse not_found \<and>
   storage (staleWhileRevalidate (answering not_found) api_request ''c''
              [(''c'', [(url asset_request, found)])]) = [(''c'', [(url asset_request, found)])] \<and>
   settles (staleWhileRevalidate (answering not_found) api_request ''c''
              [(''c'', [(url asset_request, found)])]) = Fulfilled (Resp not_found) \<and>
   storage (cacheFirstWithLimit (answering not_found) api_request ''c'' 60
              [(''c'', [(url asset_request, found)])]) = [(''c'', [(url asset_request, found)])] \<and>
   settles (cacheFirstWithLimit (answering not_found) api_request ''c'' 60
              [(''c'', [(url asset_request, found)])]) = Fulfilled (Resp not_found) \<and>
   storage (networkFallingBackToCache (answering not_found) api_request ''c''
              [(''c'', [(url asset_request, found)])]) = [(''c'', [(url asset_request, found)])] \<and>
   settles (networkFallingBackToCache (answering not_found) api_request ''c''
              [(''c'', [(url asset_request, found)])]) = Fulfilled (Resp not_found) \<and>
   settles (handleHTMLNavigation VERSION (answering not_found) api_request
              [(''c'', [(url asset_request, found)])]) = Fulfilled (Resp not_found)"
proof -
  have hyps: "\<not> ok not_found" "rtype not_found \<noteq> Opaque"
    by (simp_all add: ok_def not_found_def)
  have fetched: "fst (fetch (answering not_found) api_request) = NetResponse not_found"
    "fst (fetch (answering not_found) (api_request\<lparr>mode := ''no-cors''\<rparr>)) = NetResponse not_found"
    by (simp_all add: fetch_def answering_def api_request_def)
  have miss: "cache_match ''c'' api_request [(''c'', [(url asset_request, found)])] = None"
    by (simp add: cache_match_def entries_def api_request_def asset_request_def)
  have opened: "caches_open ''c'' [(''c'', [(url asset_request, found)])] =
      [(''c'', [(url asset_request, found)])]"
    by (simp add: caches_open_def caches_keys_def)
  show ?thesis
    using unusable_response_not_cached
      [OF hyps, of "answering not_found" api_request "''c''"
         "[(''c'', [(url asset_request, found)])]" 60 VERSION]
      hyps fetched miss opened
    by simp
qed

end
